theory Spec2Isabelle
  imports Main "HOL-Library.Multiset" "HOL-Library.Char_ord" "HOL-Library.List_Lexorder"
    "HOL-Library.Mapping" "HOL-Library.AList_Mapping"
begin

section \<open>Go values, errors and panics\<close>

text \<open>
  The wrapped function takes an argument of any Go type; \<open>keygen.encodeValue\<close> dispatches
  on its dynamic type. The datatype lists the dynamic types the type switches of the source
  tell apart. A Go map has no iteration order: an association list with distinct keys stands
  for it, and two lists with the same entries in another order are the same map.
  Floating point arguments are left out.
\<close>

datatype go_value =
    GoNil
  | GoContext
  | GoInt int
  | GoBool bool
  | GoString string
  | GoStringer string go_value
  | GoMapIface "(string \<times> go_value) list"
  | GoMapTyped "(string \<times> go_value) list"
  | GoSlice "go_value list"
  | GoChan

text \<open>
  \<open>GoInt\<close>: the integer kinds of the numeric case; \<open>GoStringer s v\<close>: a value \<open>v\<close> whose
  type has a \<open>String()\<close> method returning \<open>s\<close>; \<open>GoMapIface\<close>: the type
  \<open>map[string]interface{}\<close>; \<open>GoMapTyped\<close>: any other map type with string keys, such as
  \<open>map[string]int\<close>; \<open>GoChan\<close>: a value \<open>json.Marshal\<close> rejects.
\<close>

datatype go_error =
    ErrorString string
  | Wrapped go_error "(string \<times> detail) list option"
and detail =
    DString string
  | DError go_error
  | DValue go_value

datatype panic_value =
    PanicError go_error
  | PanicString string
  | PanicOther string

section \<open>Package errs\<close>

definition NewError :: "go_error \<Rightarrow> (string \<times> detail) list option \<Rightarrow> go_error" where
  "NewError errType kv = Wrapped errType kv"

fun errors_Is :: "go_error \<Rightarrow> go_error \<Rightarrow> bool" where
  "errors_Is (ErrorString s) target = (ErrorString s = target)"
| "errors_Is (Wrapped e kv) target = (Wrapped e kv = target \<or> errors_Is e target)"

section \<open>Package keygen\<close>

definition maxLen :: nat where
  "maxLen = 100"

definition ErrMarshallJSON :: go_error where
  "ErrMarshallJSON = ErrorString ''error marshalling to JSON''"

definition ErrBuildKey :: go_error where
  "ErrBuildKey = ErrorString ''error building cache key''"

text \<open>
  \<open>crypto/sha256\<close> and \<open>encoding/json\<close> are the standard library's: \<open>sum256\<close> (bytes to
  digest bytes) and \<open>marshal\<close> are parameters of the functions that call them.
  \<open>hex.EncodeToString\<close> writes two lower-case digits per byte.
\<close>

definition hex_digit :: "nat \<Rightarrow> char" where
  "hex_digit n = ''0123456789abcdef'' ! (n mod 16)"

definition hex_EncodeToString :: "string \<Rightarrow> string" where
  "hex_EncodeToString bs =
     concat (map (\<lambda>c. [hex_digit (of_char c div 16), hex_digit (of_char c)]) bs)"

definition hashBytes :: "(string \<Rightarrow> string) \<Rightarrow> string \<Rightarrow> string" where
  "hashBytes sum256 data = hex_EncodeToString (sum256 data)"

definition shouldHashData :: "string \<Rightarrow> bool" where
  "shouldHashData data = (length data > maxLen)"

definition encodeString :: "(string \<Rightarrow> string) \<Rightarrow> string \<Rightarrow> go_error + string" where
  "encodeString sum256 s =
     (if length s > maxLen then Inr (hashBytes sum256 s) else Inr s)"

definition encodeComplex ::
  "(go_value \<Rightarrow> go_error + string) \<Rightarrow> (string \<Rightarrow> string) \<Rightarrow> go_value \<Rightarrow> go_error + string" where
  "encodeComplex marshal sum256 v =
     (case marshal v of
        Inl err \<Rightarrow>
          Inl (NewError ErrMarshallJSON (Some
            [(''operation'', DString ''encoding complex value to build cache key''),
             (''value'', DValue v),
             (''error'', DError err)]))
      | Inr data \<Rightarrow>
          (case v of
             GoMapIface m \<Rightarrow> Inr (hashBytes sum256 data)
           | _ \<Rightarrow>
               if shouldHashData data then Inr (hashBytes sum256 data)
               else Inr data))"

fun digits :: "nat \<Rightarrow> string" where
  "digits n =
     (if n < 10 then [''0123456789'' ! n]
      else digits (n div 10) @ [''0123456789'' ! (n mod 10)])"

declare digits.simps [simp del]

definition fmt_Sprint_int :: "int \<Rightarrow> string" where
  "fmt_Sprint_int i = (if i < 0 then CHR ''-'' # digits (nat (- i)) else digits (nat i))"

definition fmt_Sprint_bool :: "bool \<Rightarrow> string" where
  "fmt_Sprint_bool b = (if b then ''true'' else ''false'')"

definition encodeValue ::
  "(go_value \<Rightarrow> go_error + string) \<Rightarrow> (string \<Rightarrow> string) \<Rightarrow> go_value \<Rightarrow> go_error + string" where
  "encodeValue marshal sum256 v =
     (case v of
        GoNil \<Rightarrow> Inr ''nil''
      | GoContext \<Rightarrow> Inr ''context''
      | GoInt i \<Rightarrow> Inr (fmt_Sprint_int i)
      | GoBool b \<Rightarrow> Inr (''b:'' @ fmt_Sprint_bool b)
      | GoString s \<Rightarrow> encodeString sum256 (''s:'' @ s)
      | GoStringer s u \<Rightarrow> encodeString sum256 (''s:'' @ s)
      | _ \<Rightarrow> encodeComplex marshal sum256 v)"

definition BuildKey ::
  "(go_value \<Rightarrow> go_error + string) \<Rightarrow> (string \<Rightarrow> string) \<Rightarrow> go_value \<Rightarrow> go_error + string" where
  "BuildKey marshal sum256 v =
     (case encodeValue marshal sum256 v of
        Inl err \<Rightarrow>
          Inl (NewError ErrBuildKey (Some
            [(''operation'', DString ''building cache key''),
             (''value'', DValue v),
             (''error'', DError err)]))
      | Inr encoded \<Rightarrow>
          if length encoded > maxLen then Inr (hashBytes sum256 encoded)
          else Inr encoded)"

definition key_string :: "go_error + string \<Rightarrow> string" where
  "key_string r = (case r of Inl err \<Rightarrow> [] | Inr k \<Rightarrow> k)"

subsection \<open>A model of \<open>json.Marshal\<close>\<close>

text \<open>
  \<open>encoding/json\<close> writes the entries of a map sorted by key, whatever order the map is
  iterated in, and fails on channels. The model covers the values of \<open>go_value\<close>; string
  escaping is reduced to the quote and the backslash. It instantiates the \<open>marshal\<close>
  parameter where a concrete run is evaluated.
\<close>

definition json_quote :: "string \<Rightarrow> string" where
  "json_quote s =
     ''\"'' @ concat (map (\<lambda>c. if c = CHR ''\"'' \<or> c = CHR 0x5C then [CHR 0x5C, c] else [c]) s) @ ''\"''"

fun json_join :: "string list \<Rightarrow> string" where
  "json_join [] = []"
| "json_join [x] = x"
| "json_join (x # y # ys) = x @ '','' @ json_join (y # ys)"

fun those_fields :: "(string \<times> string option) list \<Rightarrow> (string \<times> string) list option" where
  "those_fields [] = Some []"
| "those_fields ((k, None) # r) = None"
| "those_fields ((k, Some t) # r) = map_option ((#) (k, t)) (those_fields r)"

fun json_text :: "go_value \<Rightarrow> string option" where
  "json_text GoNil = Some ''null''"
| "json_text GoContext = Some ''{}''"
| "json_text (GoInt i) = Some (fmt_Sprint_int i)"
| "json_text (GoBool b) = Some (fmt_Sprint_bool b)"
| "json_text (GoString s) = Some (json_quote s)"
| "json_text (GoStringer s u) = json_text u"
| "json_text (GoMapIface m) =
     map_option (\<lambda>fs. ''{'' @ json_join (map (\<lambda>f. json_quote (fst f) @ '':'' @ snd f) fs) @ ''}'')
       (those_fields (sort_key fst (map (\<lambda>kv. (fst kv, json_text (snd kv))) m)))"
| "json_text (GoMapTyped m) =
     map_option (\<lambda>fs. ''{'' @ json_join (map (\<lambda>f. json_quote (fst f) @ '':'' @ snd f) fs) @ ''}'')
       (those_fields (sort_key fst (map (\<lambda>kv. (fst kv, json_text (snd kv))) m)))"
| "json_text (GoSlice xs) =
     map_option (\<lambda>ts. ''['' @ json_join ts @ '']'') (those (map json_text xs))"
| "json_text GoChan = None"

definition json_Marshal :: "go_value \<Rightarrow> go_error + string" where
  "json_Marshal v =
     (case json_text v of
        None \<Rightarrow> Inl (ErrorString ''json: unsupported type'')
      | Some t \<Rightarrow> Inr t)"

text \<open>Equal arguments: the same value, or the same map listed in another iteration order.\<close>

inductive same_argument :: "go_value \<Rightarrow> go_value \<Rightarrow> bool" where
  same_value: "same_argument a a"
| same_map_iface:
    "distinct (map fst xs) \<Longrightarrow> mset xs = mset ys \<Longrightarrow> same_argument (GoMapIface xs) (GoMapIface ys)"
| same_map_typed:
    "distinct (map fst xs) \<Longrightarrow> mset xs = mset ys \<Longrightarrow> same_argument (GoMapTyped xs) (GoMapTyped ys)"

definition marshal_order_free :: "(go_value \<Rightarrow> go_error + string) \<Rightarrow> bool" where
  "marshal_order_free marshal =
     (\<forall>xs ys. distinct (map fst xs) \<and> mset xs = mset ys \<longrightarrow>
        marshal (GoMapIface xs) = marshal (GoMapIface ys) \<and>
        marshal (GoMapTyped xs) = marshal (GoMapTyped ys))"

section \<open>Package core: the LRU store\<close>

text \<open>
  A function of the store either returns or panics; in both cases it leaves a store behind,
  since the writes made before a panic stay.
\<close>

datatype 'a outcome = Returns 'a | Panics panic_value

record 'v StorageItem =
  Value :: 'v
  Timestamp :: int

text \<open>
  \<open>container/list\<close>: an element is an object with an identity; the list \<open>ll\<close> holds
  pairs of an element's identity and its \<open>Value\<close> (the key), front first, and \<open>next_elem\<close>
  is the identity the next \<open>PushFront\<close> allocates. \<open>stopClosed\<close> is the state of the channel
  \<open>stopCleanup\<close> (made once by \<open>NewStorage\<close>); \<open>cleanupStarted\<close> counts the
  \<open>startCleanup\<close> goroutines launched. Times and durations are integers (nanoseconds).
\<close>

record 'v Storage =
  data :: "(string, 'v StorageItem) mapping"
  ll :: "(nat \<times> string) list"
  elems :: "(string, nat) mapping"
  next_elem :: nat
  capacity :: int
  ttl :: int
  cleanInterval :: int
  stopClosed :: bool
  cleanupRunning :: bool
  cleanupStarted :: nat

definition PushFront :: "nat \<Rightarrow> string \<Rightarrow> (nat \<times> string) list \<Rightarrow> (nat \<times> string) list" where
  "PushFront e k l = (e, k) # l"

definition Remove :: "nat \<Rightarrow> (nat \<times> string) list \<Rightarrow> (nat \<times> string) list" where
  "Remove e l = filter (\<lambda>n. fst n \<noteq> e) l"

definition MoveToFront :: "nat \<Rightarrow> (nat \<times> string) list \<Rightarrow> (nat \<times> string) list" where
  "MoveToFront e l =
     (case find (\<lambda>n. fst n = e) l of
        None \<Rightarrow> l
      | Some n \<Rightarrow> n # filter (\<lambda>n. fst n \<noteq> e) l)"

definition Back :: "(nat \<times> string) list \<Rightarrow> (nat \<times> string) option" where
  "Back l = (if l = [] then None else Some (last l))"

definition len :: "('k, 'a) mapping \<Rightarrow> nat" where
  "len m = Mapping.size m"

definition NewStorage :: "int \<Rightarrow> int \<Rightarrow> int \<Rightarrow> 'v Storage" where
  "NewStorage ttl0 capacity0 cleanInterval0 =
     \<lparr>data = Mapping.empty,
      ll = [],
      elems = Mapping.empty,
      next_elem = 0,
      capacity = (if capacity0 \<le> 0 then 1000 else capacity0),
      ttl = ttl0,
      cleanInterval = cleanInterval0,
      stopClosed = False,
      cleanupRunning = False,
      cleanupStarted = 0\<rparr>"

definition deleteProxy :: "'v Storage \<Rightarrow> string \<Rightarrow> unit outcome \<times> 'v Storage" where
  "deleteProxy s key =
     (case Mapping.lookup (elems s) key of
        None \<Rightarrow> (Returns (), s)
      | Some elem \<Rightarrow>
          let s1 = s\<lparr>ll := Remove elem (ll s),
                      elems := Mapping.delete key (elems s),
                      data := Mapping.delete key (data s)\<rparr>
          in if len (data s1) = 0 \<and> cleanupRunning s1 then
               let s2 = s1\<lparr>cleanupRunning := False\<rparr>
               in if stopClosed s2
                  then (Panics (PanicError (ErrorString ''close of closed channel'')), s2)
                  else (Returns (), s2\<lparr>stopClosed := True\<rparr>)
             else (Returns (), s1))"

text \<open>\<open>Get\<close>: \<open>zero\<close> is the zero value of the value type, \<open>now\<close> the clock read by \<open>time.Since\<close>.\<close>

definition Get :: "'v \<Rightarrow> 'v Storage \<Rightarrow> string \<Rightarrow> int \<Rightarrow> ('v \<times> bool) outcome \<times> 'v Storage" where
  "Get zero s key now =
     (case Mapping.lookup (elems s) key of
        Some elem \<Rightarrow>
          let s1 = s\<lparr>ll := MoveToFront elem (ll s)\<rparr>
          in (case Mapping.lookup (data s1) key of
                None \<Rightarrow>
                  (Panics (PanicError (ErrorString ''invalid memory address or nil pointer dereference'')), s1)
              | Some item \<Rightarrow>
                  if now - Timestamp item > ttl s1 then
                    (case deleteProxy s1 key of
                       (Panics r, s2) \<Rightarrow> (Panics r, s2)
                     | (Returns u, s2) \<Rightarrow> (Returns (zero, False), s2))
                  else (Returns (Value item, True), s1))
      | None \<Rightarrow> (Returns (zero, False), s))"

definition Set :: "'v Storage \<Rightarrow> string \<Rightarrow> 'v \<Rightarrow> int \<Rightarrow> 'v Storage" where
  "Set s key v now =
     (let item = \<lparr>Value = v, Timestamp = now\<rparr>;
          elem = next_elem s;
          s1 = s\<lparr>ll := PushFront elem key (ll s),
                  next_elem := Suc elem,
                  elems := Mapping.update key elem (elems s),
                  data := Mapping.update key item (data s)\<rparr>;
          s2 = (if int (len (data s1)) > capacity s1 then
                  (case Back (ll s1) of
                     None \<Rightarrow> s1
                   | Some tail \<Rightarrow>
                       let oldKey = snd tail
                       in s1\<lparr>ll := Remove (fst tail) (ll s1),
                              elems := Mapping.delete oldKey (elems s1),
                              data := Mapping.delete oldKey (data s1)\<rparr>)
                else s1)
      in if \<not> cleanupRunning s2
         then s2\<lparr>cleanupRunning := True, cleanupStarted := Suc (cleanupStarted s2)\<rparr>
         else s2)"

definition Delete :: "'v Storage \<Rightarrow> string \<Rightarrow> unit outcome \<times> 'v Storage" where
  "Delete s key = deleteProxy s key"

text \<open>
  \<open>cleanupExpired\<close>: \<open>order\<close> is the order in which the \<open>range\<close> loop meets the keys of
  \<open>data\<close>; a panic of \<open>deleteProxy\<close> ends the second loop.
\<close>

fun deleteAll :: "'v Storage \<Rightarrow> string list \<Rightarrow> unit outcome \<times> 'v Storage" where
  "deleteAll s [] = (Returns (), s)"
| "deleteAll s (key # keys) =
     (case deleteProxy s key of
        (Panics r, s') \<Rightarrow> (Panics r, s')
      | (Returns u, s') \<Rightarrow> deleteAll s' keys)"

definition cleanupExpired :: "'v Storage \<Rightarrow> string list \<Rightarrow> int \<Rightarrow> unit outcome \<times> 'v Storage" where
  "cleanupExpired s order now =
     (let expired = filter (\<lambda>key. case Mapping.lookup (data s) key of
                                    None \<Rightarrow> False
                                  | Some item \<Rightarrow> now - Timestamp item > ttl s) order
      in deleteAll s expired)"

text \<open>The invariants of the store: I1 (sizes agree) and I2 (nodes and index entries correspond).\<close>

definition I1 :: "'v Storage \<Rightarrow> bool" where
  "I1 s = (len (data s) = length (ll s))"

definition I2 :: "'v Storage \<Rightarrow> bool" where
  "I2 s = (list_all (\<lambda>n. Mapping.lookup (elems s) (snd n) = Some (fst n) \<and>
                          Mapping.lookup (data s) (snd n) \<noteq> None) (ll s) \<and>
           Mapping.keys (data s) \<subseteq> snd ` set (ll s))"

text \<open>A run of store operations, each at its own time; it stops at the first panic.\<close>

datatype 'v store_op = OpSet string 'v int | OpGet string int | OpDelete string

fun run_ops :: "'v \<Rightarrow> 'v Storage \<Rightarrow> 'v store_op list \<Rightarrow> unit outcome \<times> 'v Storage" where
  "run_ops zero s [] = (Returns (), s)"
| "run_ops zero s (OpSet key v now # ops) = run_ops zero (Set s key v now) ops"
| "run_ops zero s (OpGet key now # ops) =
     (case Get zero s key now of
        (Panics r, s') \<Rightarrow> (Panics r, s')
      | (Returns res, s') \<Rightarrow> run_ops zero s' ops)"
| "run_ops zero s (OpDelete key # ops) =
     (case Delete s key of
        (Panics r, s') \<Rightarrow> (Panics r, s')
      | (Returns u, s') \<Rightarrow> run_ops zero s' ops)"

section \<open>Package hooks\<close>

text \<open>
  A lifecycle hook returns nil, returns an error or panics; \<open>LogError\<close> returns (\<open>None\<close>) or
  panics. A hook that is not set is \<open>None\<close>. The errors handed to \<open>LogError\<close> are recorded,
  in order, in a trace.
\<close>

datatype hook_outcome = HookNil | HookError go_error | HookPanic panic_value

record Hooks =
  OnSet :: "(go_value \<Rightarrow> hook_outcome) option"
  OnGet :: "(go_value \<Rightarrow> hook_outcome) option"
  OnExecute :: "(go_value \<Rightarrow> hook_outcome) option"
  OnDone :: "(go_value \<Rightarrow> hook_outcome) option"
  LogError :: "(go_error \<Rightarrow> panic_value option) option"

definition toError :: "panic_value \<Rightarrow> go_error" where
  "toError r = (case r of
                  PanicError v \<Rightarrow> v
                | PanicString v \<Rightarrow> ErrorString v
                | PanicOther v \<Rightarrow> ErrorString v)"

definition safeLogError :: "Hooks \<Rightarrow> go_error \<Rightarrow> go_error list \<Rightarrow> go_error list" where
  "safeLogError h err tr = (case LogError h of None \<Rightarrow> tr | Some lg \<Rightarrow> tr @ [err])"

definition Run ::
  "Hooks \<Rightarrow> (go_value \<Rightarrow> hook_outcome) option \<Rightarrow> go_value \<Rightarrow> go_error list \<Rightarrow> go_error list" where
  "Run h fn arg tr =
     (case fn of
        None \<Rightarrow> tr
      | Some f \<Rightarrow>
          (case f arg of
             HookNil \<Rightarrow> tr
           | HookError err \<Rightarrow> safeLogError h err tr
           | HookPanic r \<Rightarrow> safeLogError h (toError r) tr))"

section \<open>Package core: the cached function\<close>

definition defaultTTL :: int where
  "defaultTTL = 5 * 60 * 1000000000"

definition defaultMaxSize :: int where
  "defaultMaxSize = 1000"

definition defaultCleanupInterval :: int where
  "defaultCleanupInterval = 1 * 60 * 1000000000"

definition ErrPanic :: go_error where
  "ErrPanic = ErrorString ''panic occurred in cached function''"

record Config =
  TTL :: int
  Capacity :: int
  CleanupInterval :: int

record 'v inflightCall =
  wg :: nat
  val :: 'v
  err :: "go_error option"

datatype 'v fn_outcome = FnReturn 'v "go_error option" | FnPanic panic_value

text \<open>
  What a cache is built from and never changes: the user function, the hooks, the zero
  value of the result type and the two library functions of the key generator.
\<close>

record 'v env =
  fn :: "go_value \<Rightarrow> 'v fn_outcome"
  hooks :: Hooks
  zero :: 'v
  marshal :: "go_value \<Rightarrow> go_error + string"
  sum256 :: "string \<Rightarrow> string"

text \<open>
  The mutable state: the store, the map \<open>inflight\<close> from keys to \<open>inflightCall\<close> objects
  (addresses into \<open>calls\<close>, allocated from \<open>next_call\<close>, since waiters keep a pointer to an
  object after it has left the map), the trace of \<open>LogError\<close> and the arguments \<open>fn\<close> has
  been invoked with.
\<close>

record 'v cache =
  store :: "'v Storage"
  inflight :: "string \<rightharpoonup> nat"
  calls :: "nat \<rightharpoonup> 'v inflightCall"
  next_call :: nat
  logged :: "go_error list"
  invoked :: "go_value list"

definition NewCachedFunction :: "Config option \<Rightarrow> 'v cache" where
  "NewCachedFunction opts =
     (let o0 = (case opts of None \<Rightarrow> \<lparr>TTL = 0, Capacity = 0, CleanupInterval = 0\<rparr> | Some c \<Rightarrow> c);
          o1 = (if TTL o0 \<le> 0 then o0\<lparr>TTL := defaultTTL\<rparr> else o0);
          o2 = (if Capacity o1 \<le> 0 then o1\<lparr>Capacity := defaultMaxSize\<rparr> else o1);
          o3 = (if CleanupInterval o2 \<le> 0 then o2\<lparr>CleanupInterval := defaultCleanupInterval\<rparr> else o2)
      in \<lparr>store = NewStorage (TTL o3) (Capacity o3) (CleanupInterval o3),
          inflight = Map.empty,
          calls = Map.empty,
          next_call = 0,
          logged = [],
          invoked = []\<rparr>)"

text \<open>
  The deferred function of \<open>call\<close>, when \<open>recover\<close> returns the panic value \<open>r\<close>: \<open>v\<close> and
  \<open>e\<close> are the named results \<open>val\<close> and \<open>err\<close> at the time of the panic. A panic of
  \<open>LogError\<close> is recovered by the inner deferred function, and then the two assignments
  after the call of \<open>LogError\<close> are not reached.
\<close>

definition recovered :: "'v env \<Rightarrow> panic_value \<Rightarrow> 'v \<Rightarrow> go_error option \<Rightarrow> 'v cache
    \<Rightarrow> ('v \<times> go_error option) \<times> 'v cache" where
  "recovered E r v e c =
     (let panicErr =
            (case r of
               PanicError x \<Rightarrow> NewError ErrPanic (Some [(''panic'', DError x)])
             | PanicString x \<Rightarrow> NewError ErrPanic (Some [(''panic'', DString x)])
             | PanicOther x \<Rightarrow> NewError ErrPanic (Some [(''panic'', DError (ErrorString x))]))
      in case LogError (hooks E) of
           None \<Rightarrow> ((zero E, Some panicErr), c)
         | Some lg \<Rightarrow>
             let c' = c\<lparr>logged := logged c @ [panicErr]\<rparr>
             in (case lg panicErr of
                   None \<Rightarrow> ((zero E, Some panicErr), c')
                 | Some r' \<Rightarrow> ((v, e), c')))"

text \<open>
  \<open>call\<close> in four pieces, each run without another goroutine in between: building the key
  and probing the store; the critical section that probes \<open>inflight\<close>; the hook
  \<open>OnExecute\<close> and the start of \<open>fn\<close>; the return of \<open>fn\<close> with all that follows it.
\<close>

datatype 'v started = Return 'v "go_error option" | Miss string

definition call_start :: "'v env \<Rightarrow> int \<Rightarrow> go_value \<Rightarrow> 'v cache \<Rightarrow> 'v started \<times> 'v cache" where
  "call_start E now arg c =
     (case BuildKey (marshal E) (sum256 E) arg of
        Inl e \<Rightarrow> (Return (zero E) (Some e), c)
      | Inr key \<Rightarrow>
          (case Get (zero E) (store c) key now of
             (Panics r, s') \<Rightarrow>
               (case recovered E r (zero E) None (c\<lparr>store := s'\<rparr>) of
                  ((v, e), c') \<Rightarrow> (Return v e, c'))
           | (Returns (v, found), s') \<Rightarrow>
               if found
               then (Return v None,
                     c\<lparr>store := s', logged := Run (hooks E) (OnGet (hooks E)) arg (logged c)\<rparr>)
               else (Miss key, c\<lparr>store := s'\<rparr>)))"

datatype entered = Waiter nat | Executor nat

definition call_lock :: "'v env \<Rightarrow> string \<Rightarrow> 'v cache \<Rightarrow> entered \<times> 'v cache" where
  "call_lock E key c =
     (case inflight c key of
        Some ic \<Rightarrow> (Waiter ic, c)
      | None \<Rightarrow>
          let ic = next_call c
          in (Executor ic,
              c\<lparr>calls := (calls c)(ic \<mapsto> \<lparr>wg = 1, val = zero E, err = None\<rparr>),
                next_call := Suc ic,
                inflight := (inflight c)(key \<mapsto> ic)\<rparr>))"

text \<open>\<open>ic.wg.Wait()\<close> returns once the counter is zero; until then the caller stays blocked.\<close>

definition call_wait :: "nat \<Rightarrow> 'v cache \<Rightarrow> ('v \<times> go_error option) option" where
  "call_wait ic c =
     (case calls c ic of
        None \<Rightarrow> None
      | Some i \<Rightarrow> if wg i = 0 then Some (val i, err i) else None)"

definition call_execute :: "'v env \<Rightarrow> go_value \<Rightarrow> 'v cache \<Rightarrow> 'v cache" where
  "call_execute E arg c =
     c\<lparr>logged := Run (hooks E) (OnExecute (hooks E)) arg (logged c),
       invoked := invoked c @ [arg]\<rparr>"

definition call_finish :: "'v env \<Rightarrow> int \<Rightarrow> nat \<Rightarrow> string \<Rightarrow> go_value \<Rightarrow> 'v cache
    \<Rightarrow> ('v \<times> go_error option) \<times> 'v cache" where
  "call_finish E now ic key arg c =
     (case fn E arg of
        FnPanic r \<Rightarrow> recovered E r (zero E) None c
      | FnReturn v e \<Rightarrow>
          let c1 = c\<lparr>logged := Run (hooks E) (OnDone (hooks E)) arg (logged c)\<rparr>;
              c2 = c1\<lparr>inflight := (inflight c1)(key := None),
                      calls := (calls c1)(ic := map_option (\<lambda>i. i\<lparr>wg := wg i - 1, val := v, err := e\<rparr>)
                                                   (calls c1 ic))\<rparr>
          in (case e of
                Some er \<Rightarrow>
                  (case LogError (hooks E) of
                     None \<Rightarrow> ((zero E, e), c2)
                   | Some lg \<Rightarrow>
                       let c3 = c2\<lparr>logged := logged c2 @ [er]\<rparr>
                       in (case lg er of
                             None \<Rightarrow> ((zero E, e), c3)
                           | Some r \<Rightarrow> recovered E r v e c3))
              | None \<Rightarrow>
                  let c3 = c2\<lparr>store := Set (store c2) key v now\<rparr>
                  in ((v, None), c3\<lparr>logged := Run (hooks E) (OnSet (hooks E)) arg (logged c3)\<rparr>)))"

text \<open>
  A call with no other goroutine running: the result is \<open>None\<close> when the caller blocks in
  \<open>ic.wg.Wait()\<close>, which then never returns.
\<close>

definition call :: "'v env \<Rightarrow> int \<Rightarrow> go_value \<Rightarrow> 'v cache \<Rightarrow> ('v \<times> go_error option) option \<times> 'v cache" where
  "call E now arg c =
     (case call_start E now arg c of
        (Return v e, c1) \<Rightarrow> (Some (v, e), c1)
      | (Miss key, c1) \<Rightarrow>
          (case call_lock E key c1 of
             (Waiter ic, c2) \<Rightarrow> (call_wait ic c2, c2)
           | (Executor ic, c2) \<Rightarrow>
               (case call_finish E now ic key arg (call_execute E arg c2) of
                  (res, c3) \<Rightarrow> (Some res, c3))))"

subsection \<open>Concurrent callers\<close>

text \<open>
  Each goroutine inside \<open>call\<close> is at one of these points; a schedule names, step by step,
  the goroutine that runs its next piece and the time at which it does.
\<close>

datatype 'v pc =
    AtStart go_value
  | AtLock string go_value
  | AtWait nat
  | AtExecute nat string go_value
  | InFn nat string go_value
  | Finished 'v "go_error option"

fun step :: "'v env \<Rightarrow> nat \<times> int \<Rightarrow> 'v cache \<times> 'v pc list \<Rightarrow> 'v cache \<times> 'v pc list" where
  "step E (tid, now) (c, ts) =
     (if tid \<ge> length ts then (c, ts)
      else case ts ! tid of
             AtStart arg \<Rightarrow>
               (case call_start E now arg c of
                  (Return v e, c') \<Rightarrow> (c', ts[tid := Finished v e])
                | (Miss key, c') \<Rightarrow> (c', ts[tid := AtLock key arg]))
           | AtLock key arg \<Rightarrow>
               (case call_lock E key c of
                  (Waiter ic, c') \<Rightarrow> (c', ts[tid := AtWait ic])
                | (Executor ic, c') \<Rightarrow> (c', ts[tid := AtExecute ic key arg]))
           | AtWait ic \<Rightarrow>
               (case call_wait ic c of
                  None \<Rightarrow> (c, ts)
                | Some (v, e) \<Rightarrow> (c, ts[tid := Finished v e]))
           | AtExecute ic key arg \<Rightarrow> (call_execute E arg c, ts[tid := InFn ic key arg])
           | InFn ic key arg \<Rightarrow>
               (case call_finish E now ic key arg c of
                  ((v, e), c') \<Rightarrow> (c', ts[tid := Finished v e]))
           | Finished v e \<Rightarrow> (c, ts))"

fun run :: "'v env \<Rightarrow> (nat \<times> int) list \<Rightarrow> 'v cache \<times> 'v pc list \<Rightarrow> 'v cache \<times> 'v pc list" where
  "run E [] w = w"
| "run E (a # sched) w = run E sched (step E a w)"

subsection \<open>Example configurations\<close>

text \<open>
  Caches over \<open>int\<close> results (zero value 0) with the model of \<open>json.Marshal\<close>; the digest
  function is a stand-in of the right length, and no run below reaches it.
\<close>

definition no_hooks :: Hooks where
  "no_hooks = \<lparr>OnSet = None, OnGet = None, OnExecute = None, OnDone = None, LogError = None\<rparr>"

definition logging_hooks :: Hooks where
  "logging_hooks = no_hooks\<lparr>LogError := Some (\<lambda>e. None)\<rparr>"

definition panicking_log_hooks :: Hooks where
  "panicking_log_hooks = no_hooks\<lparr>LogError := Some (\<lambda>e. Some (PanicString ''log failed''))\<rparr>"

definition example_env :: "(go_value \<Rightarrow> int fn_outcome) \<Rightarrow> Hooks \<Rightarrow> int env" where
  "example_env f h =
     \<lparr>fn = f, hooks = h, zero = 0, marshal = json_Marshal,
      sum256 = (\<lambda>bs. replicate 32 (CHR 0x00))\<rparr>"

text \<open>
  One executor (goroutine 0) and \<open>n\<close> waiters: the executor registers its slot and starts
  \<open>fn\<close>; each waiter then probes the store and the map \<open>inflight\<close>; \<open>fn\<close> returns and the
  executor completes; the waiters wake.
\<close>

definition single_flight_schedule :: "nat \<Rightarrow> int \<Rightarrow> (nat \<times> int) list" where
  "single_flight_schedule n now =
     [(0, now), (0, now), (0, now)] @
     concat (map (\<lambda>i. [(i, now), (i, now)]) [1..<Suc n]) @
     [(0, now)] @
     map (\<lambda>i. (i, now)) [1..<Suc n]"

section \<open>Properties of the key generator\<close>

lemma sort_key_fst_perm:
  assumes "distinct (map fst xs)" and "mset xs = mset ys"
  shows "sort_key fst xs = sort_key fst ys"
proof -
  have s: "set xs = set ys" using assms(2) by (rule mset_eq_setD)
  have m: "mset (map fst xs) = mset (map fst ys)" using assms(2) by simp
  have d: "distinct (map fst ys)" using assms(1) m by (metis mset_eq_imp_distinct_iff)
  have inj: "inj_on fst (set (sort_key fst xs) \<union> set (sort_key fst ys))"
    using assms(1) s by (simp add: distinct_map)
  show ?thesis
    by (rule map_sorted_distinct_set_unique [OF inj])
      (use assms(1) d s in \<open>simp_all add: distinct_map\<close>)
qed

lemma marshalled_entries_perm:
  assumes "distinct (map fst xs)" and "mset xs = mset ys"
  shows "sort_key fst (map (\<lambda>kv. (fst kv, g (snd kv))) xs) =
         sort_key fst (map (\<lambda>kv. (fst kv, g (snd kv))) ys)"
proof (rule sort_key_fst_perm)
  show "distinct (map fst (map (\<lambda>kv. (fst kv, g (snd kv))) xs))"
    using assms(1) by (simp add: comp_def)
  show "mset (map (\<lambda>kv. (fst kv, g (snd kv))) xs) = mset (map (\<lambda>kv. (fst kv, g (snd kv))) ys)"
    using assms(2) by (metis mset_map)
qed

lemma json_Marshal_order_free: "marshal_order_free json_Marshal"
  unfolding marshal_order_free_def json_Marshal_def
  by (auto simp: marshalled_entries_perm)

lemma length_hex_EncodeToString: "length (hex_EncodeToString bs) = 2 * length bs"
  unfolding hex_EncodeToString_def by (induction bs) simp_all

lemma json_Marshal_small_typed_map:
  "json_Marshal (GoMapTyped [(''a'', GoInt 1)]) = Inr ''{\"a\":1}''"
  by (simp add: json_Marshal_def json_quote_def fmt_Sprint_int_def digits.simps)

text \<open>
  The branch of \<open>encodeComplex\<close> for \<open>map[string]interface{}\<close> hashes whatever the length
  of the JSON, and \<open>BuildKey\<close> keeps the 64 digits of a 32 byte digest.
\<close>

lemma encodeComplex_map_iface:
  "M (GoMapIface m) = Inr js \<Longrightarrow>
   encodeComplex M H (GoMapIface m) = Inr (hashBytes H js)"
  by (simp add: encodeComplex_def)

lemma BuildKey_map_iface:
  "M (GoMapIface m) = Inr js \<Longrightarrow> length (H js) = 32 \<Longrightarrow>
   BuildKey M H (GoMapIface m) = Inr (hashBytes H js)"
  by (simp add: BuildKey_def encodeValue_def encodeComplex_def hashBytes_def
      length_hex_EncodeToString maxLen_def)

text \<open>
  Claim C5. Every map with string keys is fingerprinted by the hex SHA-256 digest of its
  JSON, never by the JSON text. The type switch of \<open>encodeComplex\<close> has a case for
  \<open>map[string]interface{}\<close> only: a map of another type, here \<open>map[string]int{"a": 1}\<close>,
  takes the default branch, and its key is the JSON text, which is no hex digest (a hex
  string has an even length, the text has seven characters).
\<close>

theorem BuildKey_typed_map_raw_json:
  "BuildKey json_Marshal H (GoMapTyped [(''a'', GoInt 1)]) = Inr ''{\"a\":1}'' \<and>
   BuildKey json_Marshal H (GoMapTyped [(''a'', GoInt 1)]) \<noteq> Inr (hashBytes H ''{\"a\":1}'')"
proof -
  have b: "BuildKey json_Marshal H (GoMapTyped [(''a'', GoInt 1)]) = Inr ''{\"a\":1}''"
    by (simp add: BuildKey_def encodeValue_def encodeComplex_def json_Marshal_small_typed_map
        shouldHashData_def maxLen_def)
  have "even (length (hashBytes H ''{\"a\":1}''))"
    by (simp add: hashBytes_def length_hex_EncodeToString)
  moreover have "odd (length ''{\"a\":1}'')" by simp
  ultimately have "hashBytes H ''{\"a\":1}'' \<noteq> ''{\"a\":1}''" by metis
  with b show ?thesis by simp
qed

text \<open>
  Claim C9. \<open>BuildKey\<close> is deterministic: equal arguments get equal key strings (and fail
  together), also two maps with the same entries met in different iteration orders. The
  key depends on a map only through \<open>json.Marshal\<close>, which sorts the entries by key.
\<close>

theorem BuildKey_deterministic:
  assumes "same_argument a1 a2" and "marshal_order_free M"
  shows "key_string (BuildKey M H a1) = key_string (BuildKey M H a2) \<and>
         isl (BuildKey M H a1) = isl (BuildKey M H a2)"
  using assms(1)
proof cases
  case same_value
  then show ?thesis by simp
next
  case (same_map_iface xs ys)
  then have "M (GoMapIface xs) = M (GoMapIface ys)"
    using assms(2) by (simp add: marshal_order_free_def)
  then show ?thesis
    using same_map_iface
    by (simp add: BuildKey_def encodeValue_def encodeComplex_def key_string_def split: sum.splits)
next
  case (same_map_typed xs ys)
  then have "M (GoMapTyped xs) = M (GoMapTyped ys)"
    using assms(2) by (simp add: marshal_order_free_def)
  then show ?thesis
    using same_map_typed
    by (simp add: BuildKey_def encodeValue_def encodeComplex_def key_string_def split: sum.splits)
qed

theorem BuildKey_deterministic_witness:
  "same_argument (GoMapIface [(''a'', GoInt 1), (''b'', GoInt 2)])
                 (GoMapIface [(''b'', GoInt 2), (''a'', GoInt 1)]) \<and>
   marshal_order_free json_Marshal \<and>
   key_string (BuildKey json_Marshal (\<lambda>bs. replicate 32 (CHR 0x00))
      (GoMapIface [(''a'', GoInt 1), (''b'', GoInt 2)])) =
   key_string (BuildKey json_Marshal (\<lambda>bs. replicate 32 (CHR 0x00))
      (GoMapIface [(''b'', GoInt 2), (''a'', GoInt 1)]))"
proof -
  have s: "same_argument (GoMapIface [(''a'', GoInt 1), (''b'', GoInt 2)])
                 (GoMapIface [(''b'', GoInt 2), (''a'', GoInt 1)])"
    by (rule same_map_iface) (simp_all add: add.commute)
  show ?thesis
    using s json_Marshal_order_free BuildKey_deterministic [OF s json_Marshal_order_free]
    by simp
qed

section \<open>Properties of the store\<close>

lemmas store_defs =
  NewStorage_def Set_def Get_def Delete_def deleteProxy_def PushFront_def Remove_def
  MoveToFront_def Back_def len_def Mapping.size_def Let_def

lemma Get_absent:
  "Mapping.lookup (elems s) k = None \<Longrightarrow> Get z s k now = (Returns (z, False), s)"
  by (simp add: Get_def)

lemma MoveToFront_hd:
  "(e, k) \<in> set l \<Longrightarrow> distinct (map fst l) \<Longrightarrow> hd (MoveToFront e l) = (e, k)"
proof -
  assume a: "(e, k) \<in> set l" and d: "distinct (map fst l)"
  obtain n where f: "find (\<lambda>n. fst n = e) l = Some n"
    using a by (cases "find (\<lambda>n. fst n = e) l") (auto simp: find_None_iff)
  then have "n \<in> set l" and "fst n = e"
    by (auto simp: find_Some_iff)
  then have "n = (e, k)"
    using a d by (metis eq_key_imp_eq_value prod.collapse)
  then show ?thesis using f by (simp add: MoveToFront_def)
qed

text \<open>
  \<open>Get\<close> on a present key: within the TTL it is a hit and the node is moved to the front;
  past the TTL the entry is deleted and the result is a miss, unless that deletion empties
  the store while the sweeper is marked running and the stop channel is closed already.
\<close>

lemma Get_fresh:
  assumes "Mapping.lookup (elems s) k = Some e" and "Mapping.lookup (data s) k = Some item"
    and "now - Timestamp item \<le> ttl s"
  shows "Get z s k now = (Returns (Value item, True), s\<lparr>ll := MoveToFront e (ll s)\<rparr>)"
  using assms by (simp add: Get_def)

lemma Get_expired:
  assumes "Mapping.lookup (elems s) k = Some e" and "Mapping.lookup (data s) k = Some item"
    and "now - Timestamp item > ttl s"
    and "\<not> (cleanupRunning s \<and> stopClosed s \<and> len (Mapping.delete k (data s)) = 0)"
  shows "fst (Get z s k now) = Returns (z, False) \<and>
         Mapping.lookup (data (snd (Get z s k now))) k = None \<and>
         Mapping.lookup (elems (snd (Get z s k now))) k = None"
  using assms by (auto simp: Get_def deleteProxy_def Let_def)

text \<open>
  Claim C3. Every store operation keeps I1 and I2, also a \<open>Set\<close> of a key that is present.
  \<open>Set\<close> pushes a new node and leaves the old one: after \<open>Set a\<close> twice the list has two
  nodes for the one entry of the index, and the old node is not the one the index holds.
\<close>

theorem Set_existing_key_breaks_I1_I2:
  "I1 (Set (NewStorage 10 2 5) ''a'' (1::int) 0) \<and>
   I2 (Set (NewStorage 10 2 5) ''a'' (1::int) 0) \<and>
   ll (Set (Set (NewStorage 10 2 5) ''a'' (1::int) 0) ''a'' 2 1) = [(1, ''a''), (0, ''a'')] \<and>
   Mapping.lookup (elems (Set (Set (NewStorage 10 2 5) ''a'' (1::int) 0) ''a'' 2 1)) ''a'' = Some 1 \<and>
   len (data (Set (Set (NewStorage 10 2 5) ''a'' (1::int) 0) ''a'' 2 1)) = 1 \<and>
   \<not> I1 (Set (Set (NewStorage 10 2 5) ''a'' (1::int) 0) ''a'' 2 1) \<and>
   \<not> I2 (Set (Set (NewStorage 10 2 5) ''a'' (1::int) 0) ''a'' 2 1)"
  by (simp add: store_defs I1_def I2_def)

text \<open>
  Claim C4. No sequence of store operations closes the stop channel twice. The channel is
  made once, in \<open>NewStorage\<close>, and \<open>Set\<close> sets the running flag again without making a new
  one: \<open>Set\<close>, \<open>Delete\<close>, \<open>Set\<close>, \<open>Delete\<close> on one key closes it a second time, which panics.
\<close>

theorem Set_Delete_twice_closes_twice:
  "stopClosed (snd (run_ops (0::int) (NewStorage 10 2 5)
      [OpSet ''a'' 1 0, OpDelete ''a'', OpSet ''a'' 2 0])) \<and>
   cleanupRunning (snd (run_ops (0::int) (NewStorage 10 2 5)
      [OpSet ''a'' 1 0, OpDelete ''a'', OpSet ''a'' 2 0])) \<and>
   fst (run_ops (0::int) (NewStorage 10 2 5)
      [OpSet ''a'' 1 0, OpDelete ''a'', OpSet ''a'' 2 0, OpDelete ''a'']) =
     Panics (PanicError (ErrorString ''close of closed channel''))"
  by (simp add: store_defs)

text \<open>
  Claim C6. \<open>Get\<close> of a present key is a hit within the TTL and moves the node to the
  front; past the TTL it deletes the entry and returns a miss; \<open>Get\<close> of an absent key is a
  miss. With a TTL of 10: the entry set at 0 is a hit at 10, and at 11 it is deleted with
  a miss, which empties the store and closes the stop channel; the entry set again at 20
  is expired at 31, and this \<open>Get\<close> does not return a miss: deleting the entry closes the
  closed channel, and \<open>Get\<close> panics.
\<close>

theorem Get_second_expiry_panics:
  "fst (Get (0::int) (Set (NewStorage 10 2 5) ''a'' 1 0) ''a'' 10) = Returns (1, True) \<and>
   fst (Get (0::int) (Set (NewStorage 10 2 5) ''a'' 1 0) ''a'' 11) = Returns (0, False) \<and>
   fst (Get (0::int)
     (Set (snd (Get (0::int) (Set (NewStorage 10 2 5) ''a'' 1 0) ''a'' 11)) ''a'' 2 20) ''a'' 31) =
     Panics (PanicError (ErrorString ''close of closed channel''))"
  by (simp add: store_defs)

section \<open>Properties of the cached function\<close>

lemma call_start_absent:
  "BuildKey (marshal E) (sum256 E) a = Inr k \<Longrightarrow> Mapping.lookup (elems (store c)) k = None \<Longrightarrow>
   call_start E now a c = (Miss k, c)"
  by (simp add: call_start_def Get_absent)

lemma call_lock_free:
  "inflight c k = None \<Longrightarrow>
   call_lock E k c =
     (Executor (next_call c),
      c\<lparr>calls := (calls c)(next_call c \<mapsto> \<lparr>wg = 1, val = zero E, err = None\<rparr>),
        next_call := Suc (next_call c),
        inflight := (inflight c)(k \<mapsto> next_call c)\<rparr>)"
  by (simp add: call_lock_def Let_def)

lemma call_lock_busy:
  "inflight c k = Some ic \<Longrightarrow> call_lock E k c = (Waiter ic, c)"
  by (simp add: call_lock_def)

lemma call_miss:
  assumes "BuildKey (marshal E) (sum256 E) a = Inr k"
    and "Mapping.lookup (elems (store c)) k = None" and "inflight c k = None"
  shows "call E now a c =
     (Some (fst (call_finish E now (next_call c) k a (call_execute E a (snd (call_lock E k c))))),
      snd (call_finish E now (next_call c) k a (call_execute E a (snd (call_lock E k c)))))"
  using assms by (simp add: call_def call_start_absent call_lock_free split: prod.splits)

lemmas call_miss_defs =
  call_miss call_lock_free call_execute_def call_finish_def recovered_def Let_def

lemma BuildKey_GoInt_7:
  "BuildKey (marshal (example_env f h)) (sum256 (example_env f h)) (GoInt 7) = Inr ''7''"
  by (simp add: BuildKey_def encodeValue_def fmt_Sprint_int_def digits.simps maxLen_def)

lemma fresh_cache [simp]:
  "Mapping.lookup (elems (store (NewCachedFunction opts))) k = None"
  "inflight (NewCachedFunction opts) k = None"
  "invoked (NewCachedFunction opts) = []"
  "logged (NewCachedFunction opts) = []"
  "next_call (NewCachedFunction opts) = 0"
  by (simp_all add: NewCachedFunction_def NewStorage_def Let_def)

text \<open>
  Claim C7. If \<open>fn\<close> returns an error, nothing is stored, the error goes to \<open>LogError\<close>, the
  caller gets the zero value with the error, and the next call with the same argument
  invokes \<open>fn\<close> again. The call is one that reaches \<open>fn\<close>: the key has no entry in the store
  and no slot in flight. The returned pair is stated for a \<open>LogError\<close> that keeps its
  contract and does not panic on the error; the other parts hold for any hooks.
\<close>

theorem fn_error_not_cached:
  assumes "BuildKey (marshal E) (sum256 E) a = Inr k"
    and "Mapping.lookup (elems (store c)) k = None"
    and "inflight c k = None"
    and "fn E a = FnReturn v (Some e)"
  shows "store (snd (call E now a c)) = store c \<and>
         inflight (snd (call E now a c)) k = None \<and>
         invoked (snd (call E now a c)) = invoked c @ [a] \<and>
         (LogError (hooks E) \<noteq> None \<longrightarrow> e \<in> set (logged (snd (call E now a c)))) \<and>
         ((\<forall>lg. LogError (hooks E) = Some lg \<longrightarrow> lg e = None) \<longrightarrow>
            fst (call E now a c) = Some (zero E, Some e)) \<and>
         invoked (snd (call E now' a (snd (call E now a c)))) = invoked c @ [a, a]"
proof -
  let ?c' = "snd (call E now a c)"
  have 1: "store ?c' = store c" "inflight ?c' k = None" "invoked ?c' = invoked c @ [a]"
    using assms
    by (auto simp: call_miss_defs split: option.splits panic_value.splits)
  have 2: "LogError (hooks E) \<noteq> None \<longrightarrow> e \<in> set (logged ?c')"
    using assms
    by (auto simp: call_miss_defs split: option.splits panic_value.splits)
  have 3: "(\<forall>lg. LogError (hooks E) = Some lg \<longrightarrow> lg e = None) \<longrightarrow>
            fst (call E now a c) = Some (zero E, Some e)"
    using assms
    by (auto simp: call_miss_defs split: option.splits panic_value.splits)
  have a': "Mapping.lookup (elems (store ?c')) k = None" using 1 assms(2) by simp
  have 4: "invoked (snd (call E now' a ?c')) = invoked ?c' @ [a]"
    using assms(1,4) a' 1(2)
    by (auto simp: call_miss_defs split: option.splits panic_value.splits)
  show ?thesis using 1 2 3 4 by simp
qed

theorem fn_error_not_cached_witness:
  "BuildKey (marshal (example_env (\<lambda>a. FnReturn 5 (Some (ErrorString ''boom''))) logging_hooks))
     (sum256 (example_env (\<lambda>a. FnReturn 5 (Some (ErrorString ''boom''))) logging_hooks))
     (GoInt 7) = Inr ''7'' \<and>
   store (snd (call (example_env (\<lambda>a. FnReturn 5 (Some (ErrorString ''boom''))) logging_hooks)
     0 (GoInt 7) (NewCachedFunction None))) = store (NewCachedFunction None) \<and>
   ErrorString ''boom'' \<in> set (logged (snd (call
     (example_env (\<lambda>a. FnReturn 5 (Some (ErrorString ''boom''))) logging_hooks)
     0 (GoInt 7) (NewCachedFunction None)))) \<and>
   fst (call (example_env (\<lambda>a. FnReturn 5 (Some (ErrorString ''boom''))) logging_hooks)
     0 (GoInt 7) (NewCachedFunction None)) = Some (0, Some (ErrorString ''boom'')) \<and>
   invoked (snd (call (example_env (\<lambda>a. FnReturn 5 (Some (ErrorString ''boom''))) logging_hooks)
     1 (GoInt 7)
     (snd (call (example_env (\<lambda>a. FnReturn 5 (Some (ErrorString ''boom''))) logging_hooks)
        0 (GoInt 7) (NewCachedFunction None))))) = [GoInt 7, GoInt 7]"
proof -
  let ?E = "example_env (\<lambda>a. FnReturn 5 (Some (ErrorString ''boom''))) logging_hooks"
  have f: "fn ?E (GoInt 7) = FnReturn 5 (Some (ErrorString ''boom''))"
    by (simp add: example_env_def)
  have h: "LogError (hooks ?E) \<noteq> None" "\<forall>lg. LogError (hooks ?E) = Some lg \<longrightarrow> lg (ErrorString ''boom'') = None"
    "zero ?E = 0"
    by (auto simp: example_env_def logging_hooks_def no_hooks_def)
  show ?thesis
    using fn_error_not_cached [where E = "?E" and a = "GoInt 7" and k = "''7''"
        and c = "NewCachedFunction None" and v = 5 and e = "ErrorString ''boom''"
        and now = 0 and now' = 1, OF BuildKey_GoInt_7 fresh_cache(1) fresh_cache(2) f] h
      BuildKey_GoInt_7 [of "\<lambda>a. FnReturn 5 (Some (ErrorString ''boom''))" logging_hooks]
    by simp
qed

lemma recovered_is_ErrPanic:
  "LogError (hooks E) = None \<or> (\<exists>lg. LogError (hooks E) = Some lg \<and> (\<forall>x. lg x = None)) \<Longrightarrow>
   \<exists>pe. fst (recovered E r v e c) = (zero E, Some pe) \<and> errors_Is pe ErrPanic \<and>
        logged (snd (recovered E r v e c)) =
          (if LogError (hooks E) = None then logged c else logged c @ [pe])"
  by (auto simp: recovered_def NewError_def ErrPanic_def Let_def
      split: panic_value.splits option.splits)

lemma call_blocked:
  assumes "BuildKey (marshal E) (sum256 E) a = Inr k"
    and "Mapping.lookup (elems (store c)) k = None"
    and "inflight c k = Some ic" and "calls c ic = Some i" and "wg i \<noteq> 0"
  shows "call E now a c = (None, c)"
  using assms by (simp add: call_def call_start_absent call_lock_busy call_wait_def)

text \<open>
  Claim C2. If \<open>fn\<close> panics, the call returns an \<open>ErrPanic\<close> error with the zero value,
  \<open>LogError\<close> is called once for the panic, nothing is stored, and a later call with the
  same argument invokes \<open>fn\<close> anew, the slot being completed and removed. The first three
  hold (for a \<open>LogError\<close> that does not panic). The last does not: the panic skips the
  critical section that removes the slot and releases the wait group, and the deferred
  function does neither, so the slot stays in \<open>inflight\<close> with its counter at 1; the next
  call finds it, waits on it for ever, and \<open>fn\<close> is not invoked again.
\<close>

theorem fn_panic_leaves_slot:
  assumes "BuildKey (marshal E) (sum256 E) a = Inr k"
    and "Mapping.lookup (elems (store c)) k = None"
    and "inflight c k = None"
    and "fn E a = FnPanic r"
  shows "store (snd (call E now a c)) = store c \<and>
         invoked (snd (call E now a c)) = invoked c @ [a] \<and>
         ((\<forall>lg. LogError (hooks E) = Some lg \<longrightarrow> (\<forall>x. lg x = None)) \<longrightarrow>
            (\<exists>pe. fst (call E now a c) = Some (zero E, Some pe) \<and> errors_Is pe ErrPanic \<and>
               logged (snd (call E now a c)) =
                 Run (hooks E) (OnExecute (hooks E)) a (logged c) @
                 (if LogError (hooks E) = None then [] else [pe]))) \<and>
         inflight (snd (call E now a c)) k = Some (next_call c) \<and>
         map_option wg (calls (snd (call E now a c)) (next_call c)) = Some 1 \<and>
         fst (call E now' a (snd (call E now a c))) = None \<and>
         invoked (snd (call E now' a (snd (call E now a c)))) = invoked c @ [a]"
proof -
  let ?c2 = "call_execute E a (snd (call_lock E k c))"
  let ?c' = "snd (call E now a c)"
  have c': "call E now a c =
      (Some (fst (recovered E r (zero E) None ?c2)), snd (recovered E r (zero E) None ?c2))"
    using assms by (simp add: call_miss call_finish_def)
  have rec: "store (snd (recovered E r v e d)) = store d"
    "inflight (snd (recovered E r v e d)) = inflight d"
    "calls (snd (recovered E r v e d)) = calls d"
    "invoked (snd (recovered E r v e d)) = invoked d" for v e and d :: "'a cache"
    by (auto simp: recovered_def Let_def split: panic_value.splits option.splits)
  have 1: "store ?c' = store c" "invoked ?c' = invoked c @ [a]"
    "inflight ?c' k = Some (next_call c)"
    "calls ?c' (next_call c) = Some \<lparr>wg = 1, val = zero E, err = None\<rparr>"
    using assms(3) by (simp_all add: c' rec call_lock_free call_execute_def)
  have 2: "(\<forall>lg. LogError (hooks E) = Some lg \<longrightarrow> (\<forall>x. lg x = None)) \<longrightarrow>
            (\<exists>pe. fst (call E now a c) = Some (zero E, Some pe) \<and> errors_Is pe ErrPanic \<and>
               logged (snd (call E now a c)) =
                 Run (hooks E) (OnExecute (hooks E)) a (logged c) @
                 (if LogError (hooks E) = None then [] else [pe]))"
  proof
    assume h: "\<forall>lg. LogError (hooks E) = Some lg \<longrightarrow> (\<forall>x. lg x = None)"
    then have "LogError (hooks E) = None \<or>
        (\<exists>lg. LogError (hooks E) = Some lg \<and> (\<forall>x. lg x = None))"
      by (cases "LogError (hooks E)") auto
    from recovered_is_ErrPanic [OF this, of r "zero E" None ?c2]
    obtain pe where pe: "fst (recovered E r (zero E) None ?c2) = (zero E, Some pe)"
      "errors_Is pe ErrPanic"
      "logged (snd (recovered E r (zero E) None ?c2)) =
         (if LogError (hooks E) = None then logged ?c2 else logged ?c2 @ [pe])"
      by blast
    have "logged ?c2 = Run (hooks E) (OnExecute (hooks E)) a (logged c)"
      using assms(3) by (simp add: call_lock_free call_execute_def)
    with pe show "\<exists>pe. fst (call E now a c) = Some (zero E, Some pe) \<and> errors_Is pe ErrPanic \<and>
               logged (snd (call E now a c)) =
                 Run (hooks E) (OnExecute (hooks E)) a (logged c) @
                 (if LogError (hooks E) = None then [] else [pe])"
      by (auto simp: c')
  qed
  have "Mapping.lookup (elems (store ?c')) k = None"
    using assms(2) 1(1) by simp
  from call_blocked [OF assms(1) this 1(3) 1(4)]
  have 3: "call E now' a ?c' = (None, ?c')" by simp
  show ?thesis using 1 2 3 by simp
qed

theorem fn_panic_leaves_slot_witness:
  "fn (example_env (\<lambda>a. FnPanic (PanicString ''boom'')) logging_hooks) (GoInt 7) =
     FnPanic (PanicString ''boom'') \<and>
   inflight (snd (call (example_env (\<lambda>a. FnPanic (PanicString ''boom'')) logging_hooks)
     0 (GoInt 7) (NewCachedFunction None))) ''7'' = Some 0 \<and>
   fst (call (example_env (\<lambda>a. FnPanic (PanicString ''boom'')) logging_hooks) 1 (GoInt 7)
     (snd (call (example_env (\<lambda>a. FnPanic (PanicString ''boom'')) logging_hooks)
        0 (GoInt 7) (NewCachedFunction None)))) = None \<and>
   invoked (snd (call (example_env (\<lambda>a. FnPanic (PanicString ''boom'')) logging_hooks) 1 (GoInt 7)
     (snd (call (example_env (\<lambda>a. FnPanic (PanicString ''boom'')) logging_hooks)
        0 (GoInt 7) (NewCachedFunction None))))) = [GoInt 7]"
proof -
  let ?E = "example_env (\<lambda>a. FnPanic (PanicString ''boom'')) logging_hooks"
  have f: "fn ?E (GoInt 7) = FnPanic (PanicString ''boom'')"
    by (simp add: example_env_def)
  show ?thesis
    using fn_panic_leaves_slot [where E = "?E" and a = "GoInt 7" and k = "''7''"
        and c = "NewCachedFunction None" and r = "PanicString ''boom''"
        and now = 0 and now' = 1, OF BuildKey_GoInt_7 fresh_cache(1) fresh_cache(2) f] f
    by simp
qed

text \<open>
  Claim C8. A failing hook never changes what the caller gets, and a panic inside
  \<open>LogError\<close> is swallowed without changing it either. The four lifecycle hooks go
  through \<open>Run\<close>, which only adds to the trace. \<open>LogError\<close> itself is called directly on
  the error path of \<open>call\<close>, and in the deferred function its panic is recovered before
  the results are assigned: with a \<open>LogError\<close> that panics, an error \<open>(v, e)\<close> of \<open>fn\<close>
  reaches the caller as \<open>(v, e)\<close> and not as the zero value with \<open>e\<close>, after two calls of
  \<open>LogError\<close>; and a panic of \<open>fn\<close> reaches the caller as the zero value with a nil error.
\<close>

theorem LogError_panic_changes_result:
  assumes "BuildKey (marshal E) (sum256 E) a = Inr k"
    and "Mapping.lookup (elems (store c)) k = None"
    and "inflight c k = None"
    and "LogError (hooks E) = Some lg"
    and lgp: "\<forall>x. lg x \<noteq> None"
  shows "(fn E a = FnReturn v (Some e) \<longrightarrow>
            fst (call E now a c) = Some (v, Some e) \<and>
            length (logged (snd (call E now a c))) =
              length (Run (hooks E) (OnDone (hooks E)) a
                       (Run (hooks E) (OnExecute (hooks E)) a (logged c))) + 2) \<and>
         (fn E a = FnPanic r \<longrightarrow> fst (call E now a c) = Some (zero E, None))"
  using assms(1-4)
  by (auto simp: call_miss_defs lgp [rule_format] split: option.splits panic_value.splits)

theorem LogError_panic_changes_result_witness:
  "fst (call (example_env (\<lambda>a. FnReturn 5 (Some (ErrorString ''boom''))) panicking_log_hooks)
     0 (GoInt 7) (NewCachedFunction None)) = Some (5, Some (ErrorString ''boom'')) \<and>
   length (logged (snd (call
     (example_env (\<lambda>a. FnReturn 5 (Some (ErrorString ''boom''))) panicking_log_hooks)
     0 (GoInt 7) (NewCachedFunction None)))) = 2 \<and>
   fst (call (example_env (\<lambda>a. FnPanic (PanicString ''boom'')) panicking_log_hooks)
     0 (GoInt 7) (NewCachedFunction None)) = Some (0, None)"
proof -
  let ?E1 = "example_env (\<lambda>a. FnReturn 5 (Some (ErrorString ''boom''))) panicking_log_hooks"
  let ?E2 = "example_env (\<lambda>a. FnPanic (PanicString ''boom'')) panicking_log_hooks"
  have l: "LogError (hooks (example_env f panicking_log_hooks)) =
      Some (\<lambda>e. Some (PanicString ''log failed''))" for f
    by (simp add: example_env_def panicking_log_hooks_def no_hooks_def)
  have p: "\<forall>x. (\<lambda>e. Some (PanicString ''log failed'')) x \<noteq> None" by simp
  have h: "OnDone (hooks (example_env f panicking_log_hooks)) = None"
    "OnExecute (hooks (example_env f panicking_log_hooks)) = None"
    "zero (example_env f panicking_log_hooks) = 0"
    "fn (example_env f panicking_log_hooks) = f" for f
    by (simp_all add: example_env_def panicking_log_hooks_def no_hooks_def)
  show ?thesis
    using LogError_panic_changes_result [where E = "?E1" and a = "GoInt 7" and k = "''7''"
        and c = "NewCachedFunction None" and v = 5 and e = "ErrorString ''boom''"
        and now = 0, OF BuildKey_GoInt_7 fresh_cache(1) fresh_cache(2) l p]
      LogError_panic_changes_result [where E = "?E2" and a = "GoInt 7" and k = "''7''"
        and c = "NewCachedFunction None" and r = "PanicString ''boom''"
        and now = 0, OF BuildKey_GoInt_7 fresh_cache(1) fresh_cache(2) l p]
    by (simp add: h Run_def)
qed

end
